theory Spec2Isabelle
  imports Main
begin

section \<open>TinyLink: the link model, the store and the link service\<close>

text \<open>
  The embedding follows \<^verbatim>\<open>models/LinkModel.js\<close> (the schema),
  \<^verbatim>\<open>services/link.service.js\<close> (the service) and
  \<^verbatim>\<open>controllers/link.controller.js\<close> (the redirect path).  Every value that
  the JavaScript reads from its environment is an explicit argument: the result of
  \<^verbatim>\<open>generateCode()\<close>, the clock, and the outcome of the platform's
  \<^verbatim>\<open>new URL(s)\<close>.  The MongoDB collection is a list of documents in insertion
  order together with the generator of fresh ObjectIds.
\<close>

subsection \<open>Data model\<close>

type_synonym date = int

text \<open>
  A document of the \<^verbatim>\<open>links\<close> collection.  \<open>oid\<close> is MongoDB's \<^verbatim>\<open>_id\<close>.
  \<open>clicks\<close> is a JavaScript Number that holds an integer; the model keeps the
  integer, and adds to it as Number addition does (\<open>number_add_one\<close> below).
\<close>

record link =
  oid :: nat
  shortCode :: string
  originalUrl :: string
  clicks :: int
  lastClicked :: "date option"
  createdAt :: date

text \<open>The projection \<^verbatim>\<open>'shortCode originalUrl clicks lastClicked'\<close> of \<^verbatim>\<open>getAllLinks\<close>.\<close>

record link_projection =
  p_oid :: nat
  p_shortCode :: string
  p_originalUrl :: string
  p_clicks :: int
  p_lastClicked :: "date option"

record store =
  docs :: "link list"
  next_oid :: nat

text \<open>
  The errors of \<^verbatim>\<open>constants/messages.js\<close> that the service throws, and the three
  errors that \<^verbatim>\<open>save()\<close> itself can raise: a schema validator failing, the unique
  index rejecting an insert (E11000), and an update that matches no document.
\<close>

datatype error =
    INVALID_URL
  | INVALID_CODE
  | CODE_EXISTS
  | LINK_NOT_FOUND
  | ValidationError
  | DuplicateKey
  | DocumentNotFound

subsection \<open>The code format\<close>

definition is_alnum :: "char \<Rightarrow> bool" where
  "is_alnum c =
     (let n = (of_char c :: nat)
      in (48 \<le> n \<and> n \<le> 57) \<or> (65 \<le> n \<and> n \<le> 90) \<or> (97 \<le> n \<and> n \<le> 122))"

text \<open>
  Modelled from the spec: \<^verbatim>\<open>CODE_REGEX\<close> of \<^verbatim>\<open>constants/regex.js\<close>, which is not
  among the sources.  The spec and the service's own comment give the format: 6 to 8
  characters, each an upper or lower case letter or a digit.  \<open>CODE_REGEX_test c\<close> is
  \<^verbatim>\<open>CODE_REGEX.test(c)\<close>.
\<close>

definition CODE_REGEX_test :: "string \<Rightarrow> bool" where
  "CODE_REGEX_test c = (6 \<le> length c \<and> length c \<le> 8 \<and> list_all is_alnum c)"

subsection \<open>The platform's URL parser\<close>

text \<open>
  \<^verbatim>\<open>new URL(originalUrl)\<close> either returns or throws.  The WHATWG parser is not part
  of the repository; its verdict on a non-empty string is the parameter \<open>P\<close>.  The empty
  string never parses.
\<close>

type_synonym url_parser = "string \<Rightarrow> bool"

definition new_URL_ok :: "url_parser \<Rightarrow> string \<Rightarrow> bool" where
  "new_URL_ok P u = (u \<noteq> [] \<and> P u)"

subsection \<open>The collection: Mongoose model operations\<close>

definition findOne :: "store \<Rightarrow> string \<Rightarrow> link option" where
  "findOne s code = find (\<lambda>d. shortCode d = code) (docs s)"

definition project :: "link \<Rightarrow> link_projection" where
  "project d =
     \<lparr>p_oid = oid d, p_shortCode = shortCode d, p_originalUrl = originalUrl d,
      p_clicks = clicks d, p_lastClicked = lastClicked d\<rparr>"

definition find_all :: "store \<Rightarrow> link_projection list" where
  "find_all s = map project (docs s)"

text \<open>
  The schema's validators, run by \<^verbatim>\<open>save()\<close>: \<^verbatim>\<open>required\<close> (a string must not be
  empty), \<^verbatim>\<open>minlength: 6\<close> and \<^verbatim>\<open>maxlength: 8\<close> on \<open>shortCode\<close>, \<^verbatim>\<open>required\<close>
  on \<open>originalUrl\<close>.
\<close>

definition validate_link :: "link \<Rightarrow> bool" where
  "validate_link d =
     (shortCode d \<noteq> [] \<and> 6 \<le> length (shortCode d) \<and> length (shortCode d) \<le> 8
      \<and> originalUrl d \<noteq> [])"

text \<open>
  \<^verbatim>\<open>new Link({ shortCode, originalUrl })\<close>: a fresh ObjectId and the schema's defaults
  (\<open>clicks\<close> 0, \<open>lastClicked\<close> null, \<open>createdAt\<close> the current time).  Nothing is
  written to the collection yet.
\<close>

definition new_Link :: "store \<Rightarrow> string \<Rightarrow> string \<Rightarrow> date \<Rightarrow> link \<times> store" where
  "new_Link s code url now =
     (\<lparr>oid = next_oid s, shortCode = code, originalUrl = url, clicks = 0,
       lastClicked = None, createdAt = now\<rparr>,
      s\<lparr>next_oid := Suc (next_oid s)\<rparr>)"

text \<open>
  \<^verbatim>\<open>save()\<close> of a new document: validation, then one insert, which the unique
  indexes on \<^verbatim>\<open>_id\<close> and on \<open>shortCode\<close> (\<^verbatim>\<open>unique: true\<close>) reject when the key
  is already there.  The index that the schema declares is taken to be in place.
\<close>

definition save_new :: "store \<Rightarrow> link \<Rightarrow> error + store" where
  "save_new s d =
     (if \<not> validate_link d then Inl ValidationError
      else if list_ex (\<lambda>e. oid e = oid d \<or> shortCode e = shortCode d) (docs s)
        then Inl DuplicateKey
      else Inr (s\<lparr>docs := docs s @ [d]\<rparr>))"

text \<open>\<^verbatim>\<open>updateOne\<close>: the first document that matches is rewritten.\<close>

fun updateOne :: "(link \<Rightarrow> bool) \<Rightarrow> (link \<Rightarrow> link) \<Rightarrow> link list \<Rightarrow> link list option" where
  "updateOne p f [] = None"
| "updateOne p f (d # ds) =
     (if p d then Some (f d # ds) else map_option ((#) d) (updateOne p f ds))"

text \<open>
  \<^verbatim>\<open>save()\<close> of a document that was read from the collection and then modified in
  memory: the modified paths (here \<open>clicks\<close> and \<open>lastClicked\<close>) are written with
  \<^verbatim>\<open>$set\<close> to the document of the same \<^verbatim>\<open>_id\<close>, whatever that document now holds.
\<close>

definition save_modified :: "store \<Rightarrow> link \<Rightarrow> error + store" where
  "save_modified s l =
     (case updateOne (\<lambda>d. oid d = oid l)
             (\<lambda>d. d\<lparr>clicks := clicks l, lastClicked := lastClicked l\<rparr>) (docs s) of
        None \<Rightarrow> Inl DocumentNotFound
      | Some ds \<Rightarrow> Inr (s\<lparr>docs := ds\<rparr>))"

fun deleteOne :: "(link \<Rightarrow> bool) \<Rightarrow> link list \<Rightarrow> link list" where
  "deleteOne p [] = []"
| "deleteOne p (d # ds) = (if p d then ds else d # deleteOne p ds)"

definition findOneAndDelete :: "store \<Rightarrow> string \<Rightarrow> link option \<times> store" where
  "findOneAndDelete s code =
     (case findOne s code of
        None \<Rightarrow> (None, s)
      | Some d \<Rightarrow> (Some d, s\<lparr>docs := deleteOne (\<lambda>e. shortCode e = code) (docs s)\<rparr>))"

subsection \<open>LinkService\<close>

text \<open>
  In the definitions below the service's parameter \<^verbatim>\<open>originalUrl\<close> is written
  \<open>url\<close>, since \<open>originalUrl\<close> names the field of the record.
\<close>

text \<open>
  Step 2 of \<^verbatim>\<open>createLink\<close>: \<^verbatim>\<open>let shortCode = customCode; if (!shortCode) shortCode =
  generateCode();\<close>.  An absent custom code and the empty string are both falsy.
  \<open>gen\<close> is what \<^verbatim>\<open>generateCode()\<close> returns when it is called
  (\<^verbatim>\<open>utils/generateCode.js\<close> is not among the sources).
\<close>

definition choose_code :: "string option \<Rightarrow> string \<Rightarrow> string" where
  "choose_code customCode gen =
     (case customCode of
        None \<Rightarrow> gen
      | Some c \<Rightarrow> if c = [] then gen else c)"

text \<open>Steps 1 to 3: the checks made before the collection is touched.\<close>

definition createLink_validate ::
  "url_parser \<Rightarrow> string \<Rightarrow> string option \<Rightarrow> string \<Rightarrow> error + string" where
  "createLink_validate P url customCode gen =
     (if \<not> new_URL_ok P url then Inl INVALID_URL
      else let code = choose_code customCode gen
           in if \<not> CODE_REGEX_test code then Inl INVALID_CODE else Inr code)"

text \<open>Step 5: \<^verbatim>\<open>new Link\<close>, \<^verbatim>\<open>save\<close>, return the document.\<close>

definition createLink_insert ::
  "store \<Rightarrow> string \<Rightarrow> string \<Rightarrow> date \<Rightarrow> (error + link) \<times> store" where
  "createLink_insert s code url now =
     (let (newLink, s1) = new_Link s code url now
      in case save_new s1 newLink of
           Inl e \<Rightarrow> (Inl e, s1)
         | Inr s2 \<Rightarrow> (Inr newLink, s2))"

definition createLink ::
  "url_parser \<Rightarrow> store \<Rightarrow> string \<Rightarrow> string option \<Rightarrow> string \<Rightarrow> date
     \<Rightarrow> (error + link) \<times> store" where
  "createLink P s url customCode gen now =
     (case createLink_validate P url customCode gen of
        Inl e \<Rightarrow> (Inl e, s)
      | Inr code \<Rightarrow>
          (case findOne s code of
             Some existingLink \<Rightarrow> (Inl CODE_EXISTS, s)
           | None \<Rightarrow> createLink_insert s code url now))"

definition getAllLinks :: "store \<Rightarrow> link_projection list" where
  "getAllLinks s = find_all s"

definition getLinkByCode :: "store \<Rightarrow> string \<Rightarrow> link option" where
  "getLinkByCode s code = findOne s code"

text \<open>
  \<^verbatim>\<open>link.clicks += 1\<close> is Number addition: the exact sum rounded to the nearest
  double, a tie going to the double with the even significand.  For an integer \<open>n\<close>
  that is a Number: from \<open>- 2 ^ 53\<close> up to \<open>2 ^ 53 - 1\<close> the sum \<open>n + 1\<close> is
  exact; where the doubles are the multiples of 2 (magnitude up to \<open>2 ^ 54\<close>) the odd
  sum lies halfway between \<open>n\<close> and \<open>n + 2\<close> and goes to the multiple of 4; beyond
  that the sum rounds back to \<open>n\<close>.  So \<open>2 ^ 53 + 1\<close> is \<open>2 ^ 53\<close> again.
\<close>

definition number_add_one :: "int \<Rightarrow> int" where
  "number_add_one n =
     (if - (2 ^ 53) \<le> n \<and> n < 2 ^ 53 then n + 1
      else if (2 ^ 53 \<le> n \<and> n < 2 ^ 54) \<or> (- (2 ^ 54) \<le> n \<and> n < - (2 ^ 53))
        then (if n mod 4 = 0 then n else n + 2)
      else n)"

definition incrementClicks :: "store \<Rightarrow> link \<Rightarrow> date \<Rightarrow> (error + link) \<times> store" where
  "incrementClicks s l now =
     (let l' = l\<lparr>clicks := number_add_one (clicks l), lastClicked := Some now\<rparr>
      in case save_modified s l' of
           Inl e \<Rightarrow> (Inl e, s)
         | Inr s' \<Rightarrow> (Inr l', s'))"

definition deleteLink :: "store \<Rightarrow> string \<Rightarrow> (error + link) \<times> store" where
  "deleteLink s code =
     (case findOneAndDelete s code of
        (None, s') \<Rightarrow> (Inl LINK_NOT_FOUND, s')
      | (Some l, s') \<Rightarrow> (Inr l, s'))"

subsection \<open>LinkController: the redirect path\<close>

text \<open>
  \<^verbatim>\<open>redirectLink\<close> is the spec's \<open>resolve\<close>: look the code up, answer 404 when it is
  absent, otherwise count the click and redirect to the link's \<open>originalUrl\<close>.  The
  result is the in-memory document after \<^verbatim>\<open>incrementClicks\<close>; an error thrown
  by \<^verbatim>\<open>incrementClicks\<close> is the result as it stands (the controller answers 500).
  The route's \<^verbatim>\<open>validateCode\<close> middleware, which answers 400 for a malformed code
  before the controller runs, belongs to the HTTP layer and is not part of this function.
\<close>

definition redirectLink :: "store \<Rightarrow> string \<Rightarrow> date \<Rightarrow> (error + link) \<times> store" where
  "redirectLink s code now =
     (case getLinkByCode s code of
        None \<Rightarrow> (Inl LINK_NOT_FOUND, s)
      | Some l \<Rightarrow> incrementClicks s l now)"

subsection \<open>Requests and the reachable stores\<close>

text \<open>
  The five operations of the core.  \<open>exec\<close> is the collection after one request;
  \<^verbatim>\<open>getAllLinks\<close> and \<^verbatim>\<open>getLinkByCode\<close> only read.  A request comes with the
  values the environment supplies while it runs: the code \<^verbatim>\<open>generateCode()\<close> would
  return and the time.
\<close>

datatype request =
    Create string "string option"
  | GetAll
  | GetByCode string
  | Resolve string
  | Delete string

definition exec :: "url_parser \<Rightarrow> store \<Rightarrow> request \<times> string \<times> date \<Rightarrow> store" where
  "exec P s rq =
     (case rq of (r, gen, now) \<Rightarrow>
        (case r of
           Create url customCode \<Rightarrow> snd (createLink P s url customCode gen now)
         | GetAll \<Rightarrow> s
         | GetByCode code \<Rightarrow> s
         | Resolve code \<Rightarrow> snd (redirectLink s code now)
         | Delete code \<Rightarrow> snd (deleteLink s code)))"

fun exec_all :: "url_parser \<Rightarrow> store \<Rightarrow> (request \<times> string \<times> date) list \<Rightarrow> store" where
  "exec_all P s [] = s"
| "exec_all P s (rq # rqs) = exec_all P (exec P s rq) rqs"

text \<open>
  What holds of every collection the service can build from the empty one: ObjectIds and
  short codes are unique, every ObjectId was handed out by the generator, and every
  short code passed \<^verbatim>\<open>CODE_REGEX\<close>.
\<close>

definition store_inv :: "store \<Rightarrow> bool" where
  "store_inv s =
     (distinct (map oid (docs s)) \<and> distinct (map shortCode (docs s))
      \<and> list_all (\<lambda>d. oid d < next_oid s \<and> CODE_REGEX_test (shortCode d)) (docs s))"

definition empty_store :: store where
  "empty_store = \<lparr>docs = [], next_oid = 0\<rparr>"

definition count_code :: "store \<Rightarrow> string \<Rightarrow> nat" where
  "count_code s code = length (filter (\<lambda>d. shortCode d = code) (docs s))"

text \<open>
  \<open>evolves s s'\<close>: the ObjectId generator has only advanced, and every document of
  \<open>s'\<close> whose ObjectId was handed out before \<open>s\<close> is a document of \<open>s\<close> with the
  same code, URL and creation time and with at least as many clicks.
\<close>

definition evolves :: "store \<Rightarrow> store \<Rightarrow> bool" where
  "evolves s s' =
     (next_oid s \<le> next_oid s' \<and>
      (\<forall>d'\<in>set (docs s'). oid d' < next_oid s \<longrightarrow>
         (\<exists>d\<in>set (docs s). oid d = oid d' \<and> shortCode d = shortCode d'
             \<and> originalUrl d = originalUrl d' \<and> createdAt d = createdAt d'
             \<and> clicks d \<le> clicks d')))"

subsection \<open>Concurrent requests\<close>

text \<open>
  An \<^verbatim>\<open>async\<close> function runs without interruption up to its next \<^verbatim>\<open>await\<close>, and
  each operation on the collection is atomic at the database.  A call in flight is
  therefore a task that advances in steps, one step per awaited database operation
  together with the synchronous code around it:
  \<^item> \<^verbatim>\<open>createLink\<close>: steps 1 to 4 (the checks and \<^verbatim>\<open>await Link.findOne\<close>), then
    step 5 (\<^verbatim>\<open>new Link\<close> and \<^verbatim>\<open>await newLink.save()\<close>);
  \<^item> \<^verbatim>\<open>redirectLink\<close>: \<^verbatim>\<open>await linkService.getLinkByCode(code)\<close>, then
    \<^verbatim>\<open>await linkService.incrementClicks(link)\<close>, which works on the document
    that the first step read.
  A task carries the time at which its call reads the clock.
\<close>

datatype task =
    CreateLink_start string "string option" string date
  | CreateLink_checked string string date
  | RedirectLink_start string date
  | RedirectLink_found link date
  | Finished "error + link"

definition task_step :: "url_parser \<Rightarrow> store \<Rightarrow> task \<Rightarrow> task \<times> store" where
  "task_step P s t =
     (case t of
        CreateLink_start url customCode gen now \<Rightarrow>
          (case createLink_validate P url customCode gen of
             Inl e \<Rightarrow> (Finished (Inl e), s)
           | Inr code \<Rightarrow>
               (case findOne s code of
                  Some existingLink \<Rightarrow> (Finished (Inl CODE_EXISTS), s)
                | None \<Rightarrow> (CreateLink_checked code url now, s)))
      | CreateLink_checked code url now \<Rightarrow>
          (let (r, s') = createLink_insert s code url now in (Finished r, s'))
      | RedirectLink_start code now \<Rightarrow>
          (case getLinkByCode s code of
             None \<Rightarrow> (Finished (Inl LINK_NOT_FOUND), s)
           | Some l \<Rightarrow> (RedirectLink_found l now, s))
      | RedirectLink_found l now \<Rightarrow>
          (let (r, s') = incrementClicks s l now in (Finished r, s'))
      | Finished r \<Rightarrow> (Finished r, s))"

text \<open>A schedule names, step by step, the task that advances.\<close>

fun run :: "url_parser \<Rightarrow> nat list \<Rightarrow> store \<times> task list \<Rightarrow> store \<times> task list" where
  "run P [] cfg = cfg"
| "run P (i # sched) (s, ts) =
     (if i < length ts
      then (let (t', s') = task_step P s (ts ! i) in run P sched (s', ts[i := t']))
      else run P sched (s, ts))"

subsection \<open>The spec's scenario\<close>

text \<open>
  Concrete data for the scenario of the spec: a parser verdict that accepts the strings
  starting with \<^verbatim>\<open>https://\<close>, the link that
  \<^verbatim>\<open>create("https://example.com", "abc123")\<close> makes in the empty collection, and
  the collection that holds it.
\<close>

definition sample_parser :: url_parser where
  "sample_parser u = (take 8 u = ''https://'')"

definition link0 :: link where
  "link0 = \<lparr>oid = 0, shortCode = ''abc123'', originalUrl = ''https://example.com'',
            clicks = 0, lastClicked = None, createdAt = 1000\<rparr>"

definition store0 :: store where
  "store0 = \<lparr>docs = [link0], next_oid = 1\<rparr>"

section \<open>Properties\<close>

subsection \<open>Number addition\<close>

lemma number_add_one_exact:
  "- (2 ^ 53) \<le> n \<Longrightarrow> n < 2 ^ 53 \<Longrightarrow> number_add_one n = n + 1"
  by (simp add: number_add_one_def)

lemma number_add_one_ge: "n \<le> number_add_one n"
  by (simp add: number_add_one_def)

subsection \<open>The collection\<close>

lemma findOne_Some: "findOne s c = Some d \<Longrightarrow> d \<in> set (docs s) \<and> shortCode d = c"
  by (auto simp: findOne_def find_Some_iff)

lemma findOne_None: "findOne s c = None \<longleftrightarrow> c \<notin> shortCode ` set (docs s)"
  by (auto simp: findOne_def find_None_iff)

lemma CODE_REGEX_validates: "CODE_REGEX_test c \<Longrightarrow> c \<noteq> [] \<and> 6 \<le> length c \<and> length c \<le> 8"
  by (auto simp: CODE_REGEX_test_def)

lemma createLink_insert_ok:
  assumes "store_inv s" "CODE_REGEX_test c" "u \<noteq> []" "findOne s c = None"
  shows "createLink_insert s c u now =
     (Inr \<lparr>oid = next_oid s, shortCode = c, originalUrl = u, clicks = 0, lastClicked = None, createdAt = now\<rparr>,
      \<lparr>docs = docs s @ [\<lparr>oid = next_oid s, shortCode = c, originalUrl = u, clicks = 0, lastClicked = None, createdAt = now\<rparr>],
       next_oid = Suc (next_oid s)\<rparr>)"
proof -
  from assms(1) have "\<forall>e\<in>set (docs s). oid e \<noteq> next_oid s"
    by (auto simp: store_inv_def list_all_iff)
  moreover from assms(4) have "\<forall>e\<in>set (docs s). shortCode e \<noteq> c"
    by (auto simp: findOne_None)
  ultimately have "\<not> list_ex (\<lambda>e. oid e = next_oid s \<or> shortCode e = c) (docs s)"
    by (auto simp: list_ex_iff)
  with assms(2,3) CODE_REGEX_validates [of c] show ?thesis
    by (simp add: createLink_insert_def new_Link_def save_new_def validate_link_def)
qed

lemma createLink_insert_dup:
  assumes "findOne s c = Some d" "CODE_REGEX_test c" "u \<noteq> []" 
  shows "createLink_insert s c u now = (Inl DuplicateKey, s\<lparr>next_oid := Suc (next_oid s)\<rparr>)"
proof -
  from assms(1) have "list_ex (\<lambda>e. oid e = next_oid s \<or> shortCode e = c) (docs s)"
    by (auto simp: list_ex_iff dest: findOne_Some)
  with assms(2,3) CODE_REGEX_validates [of c] show ?thesis
    by (simp add: createLink_insert_def new_Link_def save_new_def validate_link_def)
qed

lemma createLink_validate_Inr:
  "createLink_validate P u cc g = Inr c \<longleftrightarrow>
     new_URL_ok P u \<and> c = choose_code cc g \<and> CODE_REGEX_test c"
  by (auto simp: createLink_validate_def Let_def)

lemma createLink_ok:
  assumes "store_inv s" "createLink_validate P u cc g = Inr c" "findOne s c = None"
  shows "createLink P s u cc g now =
     (Inr \<lparr>oid = next_oid s, shortCode = c, originalUrl = u, clicks = 0, lastClicked = None, createdAt = now\<rparr>,
      \<lparr>docs = docs s @ [\<lparr>oid = next_oid s, shortCode = c, originalUrl = u, clicks = 0, lastClicked = None, createdAt = now\<rparr>],
       next_oid = Suc (next_oid s)\<rparr>)"
proof -
  from assms(2) have "u \<noteq> []" "CODE_REGEX_test c"
    by (auto simp: createLink_validate_Inr new_URL_ok_def)
  with assms show ?thesis
    by (simp add: createLink_def createLink_insert_ok)
qed

lemma createLink_fail_keeps:
  "createLink P s u cc g now = (Inl e, s') \<Longrightarrow> docs s' = docs s"
  by (auto simp: createLink_def createLink_insert_def new_Link_def save_new_def
      split: sum.splits option.splits if_splits)

lemma store_inv_empty: "store_inv empty_store"
  by (simp add: store_inv_def empty_store_def)

lemma store_inv_insert:
  assumes "store_inv s" "CODE_REGEX_test c" "findOne s c = None"
  shows "store_inv \<lparr>docs = docs s @ [\<lparr>oid = next_oid s, shortCode = c, originalUrl = u, clicks = 0, lastClicked = None, createdAt = now\<rparr>],
       next_oid = Suc (next_oid s)\<rparr>"
  using assms by (auto simp: store_inv_def list_all_iff findOne_None)

lemma updateOne_distinct:
  "distinct (map oid ds) \<Longrightarrow> d \<in> set ds \<Longrightarrow>
   updateOne (\<lambda>e. oid e = oid d) f ds = Some (map (\<lambda>e. if oid e = oid d then f e else e) ds)"
proof (induction ds)
  case Nil
  then show ?case by simp
next
  case (Cons a ds)
  show ?case
  proof (cases "oid a = oid d")
    case True
    with Cons.prems have "\<forall>e\<in>set ds. oid e \<noteq> oid d" by (fastforce simp: image_iff)
    then have "map (\<lambda>e. if oid e = oid d then f e else e) ds = ds"
      by (simp add: map_idI)
    with True show ?thesis by simp
  next
    case False
    with Cons show ?thesis by auto
  qed
qed

lemma updateOne_None: "updateOne p f ds = None \<longleftrightarrow> (\<forall>e\<in>set ds. \<not> p e)"
  by (induction ds) auto

lemma deleteOne_distinct:
  "distinct (map shortCode ds) \<Longrightarrow> deleteOne (\<lambda>e. shortCode e = c) ds = filter (\<lambda>e. shortCode e \<noteq> c) ds"
proof (induction ds)
  case Nil
  then show ?case by simp
next
  case (Cons a ds)
  show ?case
  proof (cases "shortCode a = c")
    case True
    with Cons.prems have "\<forall>e\<in>set ds. shortCode e \<noteq> c" by (fastforce simp: image_iff)
    then have "filter (\<lambda>e. shortCode e \<noteq> c) ds = ds" by simp
    with True show ?thesis by simp
  next
    case False
    with Cons show ?thesis by simp
  qed
qed

lemma redirectLink_found:
  assumes "store_inv s" "findOne s c = Some d"
  shows "redirectLink s c now =
    (Inr (d\<lparr>clicks := number_add_one (clicks d), lastClicked := Some now\<rparr>),
     s\<lparr>docs := map (\<lambda>e. if oid e = oid d
                         then e\<lparr>clicks := number_add_one (clicks d), lastClicked := Some now\<rparr>
                         else e) (docs s)\<rparr>)"
proof -
  from assms have "distinct (map oid (docs s))" "d \<in> set (docs s)"
    by (auto simp: store_inv_def dest: findOne_Some)
  then show ?thesis using assms(2)
    by (simp add: redirectLink_def getLinkByCode_def incrementClicks_def save_modified_def
        updateOne_distinct Let_def)
qed

lemma redirectLink_absent:
  "findOne s c = None \<Longrightarrow> redirectLink s c now = (Inl LINK_NOT_FOUND, s)"
  by (simp add: redirectLink_def getLinkByCode_def)

lemma find_map_keeps:
  "(\<And>x. p (g x) = p x) \<Longrightarrow> find p (map g xs) = map_option g (find p xs)"
  by (induction xs) auto

lemma findOne_after_click:
  "findOne (s\<lparr>docs := map (\<lambda>e. if oid e = i then e\<lparr>clicks := k, lastClicked := t\<rparr> else e) (docs s)\<rparr>) c
     = map_option (\<lambda>e. if oid e = i then e\<lparr>clicks := k, lastClicked := t\<rparr> else e) (findOne s c)"
  by (simp add: findOne_def find_map_keeps)

lemma deleteLink_found:
  assumes "store_inv s" "findOne s c = Some d"
  shows "deleteLink s c = (Inr d, s\<lparr>docs := filter (\<lambda>e. shortCode e \<noteq> c) (docs s)\<rparr>)"
  using assms by (simp add: deleteLink_def findOneAndDelete_def deleteOne_distinct store_inv_def)

lemma deleteLink_absent:
  "findOne s c = None \<Longrightarrow> deleteLink s c = (Inl LINK_NOT_FOUND, s)"
  by (simp add: deleteLink_def findOneAndDelete_def)

lemma findOne_after_delete:
  "findOne (s\<lparr>docs := filter (\<lambda>e. shortCode e \<noteq> c) (docs s)\<rparr>) c = None"
  by (auto simp: findOne_None)

lemma store_inv_filter:
  "store_inv s \<Longrightarrow> store_inv (s\<lparr>docs := filter p (docs s)\<rparr>)"
  by (auto simp: store_inv_def list_all_iff distinct_map_filter)

lemma map_oid_click:
  "map oid (map (\<lambda>e. if oid e = i then e\<lparr>clicks := k, lastClicked := t\<rparr> else e) ds) = map oid ds"
  by (induction ds) auto

lemma map_shortCode_click:
  "map shortCode (map (\<lambda>e. if oid e = i then e\<lparr>clicks := k, lastClicked := t\<rparr> else e) ds)
     = map shortCode ds"
  by (induction ds) auto

lemma store_inv_click:
  assumes "store_inv s"
  shows "store_inv (s\<lparr>docs := map (\<lambda>e. if oid e = i then e\<lparr>clicks := k, lastClicked := t\<rparr> else e) (docs s)\<rparr>)"
  using assms map_oid_click [where ds = "docs s" and i = i and k = k and t = t]
    map_shortCode_click [where ds = "docs s" and i = i and k = k and t = t]
  by (auto simp: store_inv_def list_all_iff simp del: map_map)

subsection \<open>The invariant of the collection\<close>

lemma store_inv_createLink:
  assumes "store_inv s"
  shows "store_inv (snd (createLink P s u cc g now))"
proof (cases "createLink_validate P u cc g")
  case (Inl e)
  with assms show ?thesis by (simp add: createLink_def)
next
  case (Inr c)
  show ?thesis
  proof (cases "findOne s c")
    case None
    from Inr have "CODE_REGEX_test c" by (auto simp: createLink_validate_Inr)
    with assms Inr None show ?thesis
      by (simp add: createLink_ok store_inv_insert)
  next
    case (Some d)
    with assms Inr show ?thesis by (simp add: createLink_def)
  qed
qed

lemma store_inv_redirectLink:
  assumes "store_inv s"
  shows "store_inv (snd (redirectLink s c now))"
proof (cases "findOne s c")
  case None
  with assms show ?thesis by (simp add: redirectLink_absent)
next
  case (Some d)
  with assms show ?thesis by (simp add: redirectLink_found store_inv_click)
qed

lemma store_inv_deleteLink:
  assumes "store_inv s"
  shows "store_inv (snd (deleteLink s c))"
proof (cases "findOne s c")
  case None
  with assms show ?thesis by (simp add: deleteLink_absent)
next
  case (Some d)
  with assms show ?thesis by (simp add: deleteLink_found store_inv_filter)
qed

lemma store_inv_exec: "store_inv s \<Longrightarrow> store_inv (exec P s rq)"
  by (auto simp: exec_def store_inv_createLink store_inv_redirectLink store_inv_deleteLink
      split: prod.splits request.splits)

lemma store_inv_exec_all: "store_inv s \<Longrightarrow> store_inv (exec_all P s rqs)"
  by (induction rqs arbitrary: s) (simp_all add: store_inv_exec)

lemma evolves_refl: "evolves s s"
  by (auto simp: evolves_def)

lemma evolves_trans:
  assumes "evolves a b" "evolves b c"
  shows "evolves a c"
  unfolding evolves_def
proof (intro conjI ballI impI)
  from assms show "next_oid a \<le> next_oid c" by (simp add: evolves_def)
next
  fix d'' assume d'': "d'' \<in> set (docs c)" "oid d'' < next_oid a"
  with assms have "oid d'' < next_oid b" by (simp add: evolves_def)
  with d'' assms(2) obtain d' where d': "d' \<in> set (docs b)" "oid d' = oid d''"
    "shortCode d' = shortCode d''" "originalUrl d' = originalUrl d''"
    "createdAt d' = createdAt d''" "clicks d' \<le> clicks d''"
    unfolding evolves_def by blast
  with d''(2) assms(1) obtain d where "d \<in> set (docs a)" "oid d = oid d'"
    "shortCode d = shortCode d'" "originalUrl d = originalUrl d'"
    "createdAt d = createdAt d'" "clicks d \<le> clicks d'"
    unfolding evolves_def by force
  with d' show "\<exists>d\<in>set (docs a). oid d = oid d'' \<and> shortCode d = shortCode d''
      \<and> originalUrl d = originalUrl d'' \<and> createdAt d = createdAt d'' \<and> clicks d \<le> clicks d''"
    by (intro bexI [of _ d]) auto
qed

lemma evolves_createLink: "evolves s (snd (createLink P s u cc g now))"
  by (auto simp: evolves_def createLink_def createLink_insert_def new_Link_def save_new_def
      split: sum.splits option.splits if_splits)

lemma evolves_redirectLink:
  assumes "store_inv s"
  shows "evolves s (snd (redirectLink s c now))"
proof (cases "findOne s c")
  case None
  then show ?thesis by (simp add: redirectLink_absent evolves_refl)
next
  case (Some d)
  from assms Some have "d \<in> set (docs s)" "distinct (map oid (docs s))"
    by (auto simp: store_inv_def dest: findOne_Some)
  then have same: "\<And>e. e \<in> set (docs s) \<Longrightarrow> oid e = oid d \<Longrightarrow> e = d"
    by (meson distinct_map inj_onD)
  have "evolves s (s\<lparr>docs := map (\<lambda>e. if oid e = oid d
        then e\<lparr>clicks := number_add_one (clicks d), lastClicked := Some now\<rparr> else e) (docs s)\<rparr>)"
    unfolding evolves_def using same number_add_one_ge [of "clicks d"]
    by (fastforce split: if_splits)
  with assms Some show ?thesis by (simp add: redirectLink_found)
qed

lemma set_deleteOne: "set (deleteOne p ds) \<subseteq> set ds"
  by (induction ds) auto

lemma evolves_deleteLink: "evolves s (snd (deleteLink s c))"
  using set_deleteOne [of "\<lambda>e. shortCode e = c" "docs s"]
  by (auto simp: evolves_def deleteLink_def findOneAndDelete_def split: option.splits)

lemma evolves_exec: "store_inv s \<Longrightarrow> evolves s (exec P s rq)"
  by (auto simp: exec_def evolves_refl evolves_createLink evolves_redirectLink evolves_deleteLink
      split: prod.splits request.splits)

lemma evolves_exec_all: "store_inv s \<Longrightarrow> evolves s (exec_all P s rqs)"
proof (induction rqs arbitrary: s)
  case Nil
  then show ?case by (simp add: evolves_refl)
next
  case (Cons rq rqs)
  then have "evolves s (exec P s rq)" "evolves (exec P s rq) (exec_all P (exec P s rq) rqs)"
    by (simp_all add: evolves_exec store_inv_exec)
  then show ?case using evolves_trans by simp
qed


text \<open>
  One request after another: stored links keep their code and URL, and clicks only grow.
\<close>

lemma links_immutable_clicks_monotone:
  assumes "store_inv s" "d \<in> set (docs s)" "d' \<in> set (docs (exec_all P s rqs))" "oid d' = oid d"
  shows "shortCode d' = shortCode d \<and> originalUrl d' = originalUrl d \<and> clicks d \<le> clicks d'"
proof -
  from assms(1,2) have lt: "oid d < next_oid s" and dist: "distinct (map oid (docs s))"
    by (auto simp: store_inv_def list_all_iff)
  from assms(1) have "evolves s (exec_all P s rqs)" by (rule evolves_exec_all)
  with assms(3,4) lt obtain d0 where d0: "d0 \<in> set (docs s)" "oid d0 = oid d'"
    "shortCode d0 = shortCode d'" "originalUrl d0 = originalUrl d'" "clicks d0 \<le> clicks d'"
    unfolding evolves_def by force
  with assms(2,4) dist have "d0 = d"
    by (metis distinct_map inj_onD)
  with d0 show ?thesis by simp
qed

lemma store_inv_reachable: "store_inv (exec_all P empty_store rqs)"
  by (simp add: store_inv_exec_all store_inv_empty)

subsection \<open>Inserts, tasks and schedules\<close>

lemmas model_defs = createLink_def createLink_validate_def choose_code_def createLink_insert_def
  new_Link_def save_new_def validate_link_def new_URL_ok_def CODE_REGEX_test_def is_alnum_def
  findOne_def getLinkByCode_def redirectLink_def incrementClicks_def number_add_one_def
  save_modified_def
  deleteLink_def findOneAndDelete_def store_inv_def count_code_def exec_def
  sample_parser_def link0_def store0_def empty_store_def Let_def

lemma find_append_last:
  "find p xs = None \<Longrightarrow> p x \<Longrightarrow> find p (xs @ [x]) = Some x"
  by (induction xs) (auto split: if_splits)

lemma findOne_append:
  "find (\<lambda>d. shortCode d = c) ds = None \<Longrightarrow> shortCode w = c \<Longrightarrow>
   findOne \<lparr>docs = ds @ [w], next_oid = k\<rparr> c = Some w"
  by (simp add: findOne_def find_append_last)

lemma findOne_after_insert:
  "findOne s c = None \<Longrightarrow> shortCode w = c \<Longrightarrow> findOne \<lparr>docs = docs s @ [w], next_oid = k\<rparr> c = Some w"
  by (simp add: findOne_def find_append_last)

lemma count_code_after_insert:
  "findOne s c = None \<Longrightarrow> shortCode w = c \<Longrightarrow> count_code \<lparr>docs = docs s @ [w], next_oid = k\<rparr> c = 1"
  by (fastforce simp: count_code_def findOne_None filter_empty_conv image_iff)

lemma step_create_start:
  "createLink_validate P u cc g = Inr c \<Longrightarrow> findOne s c = None \<Longrightarrow>
   task_step P s (CreateLink_start u cc g n) = (CreateLink_checked c u n, s)"
  by (simp add: task_step_def)

lemma step_create_start_exists:
  "createLink_validate P u cc g = Inr c \<Longrightarrow> findOne s c = Some d \<Longrightarrow>
   task_step P s (CreateLink_start u cc g n) = (Finished (Inl CODE_EXISTS), s)"
  by (simp add: task_step_def)

lemma step_create_checked:
  "task_step P s (CreateLink_checked c u n) =
     (Finished (fst (createLink_insert s c u n)), snd (createLink_insert s c u n))"
  by (simp add: task_step_def split: prod.splits)

lemma step_finished: "task_step P s (Finished r) = (Finished r, s)"
  by (simp add: task_step_def)

text \<open>Run to completion, a task is the sequential function.\<close>

lemma run_createLink:
  "run P [0, 0] (s, [CreateLink_start u cc g n]) =
     (snd (createLink P s u cc g n), [Finished (fst (createLink P s u cc g n))])"
  by (simp add: task_step_def createLink_def split: sum.splits option.splits prod.splits)

lemma run_redirectLink:
  "run P [0, 0] (s, [RedirectLink_start c n]) =
     (snd (redirectLink s c n), [Finished (fst (redirectLink s c n))])"
  by (simp add: task_step_def redirectLink_def split: sum.splits option.splits prod.splits)

lemma shuffles_two: "shuffles [a, a] [b, b] =
   {[a,a,b,b], [a,b,a,b], [a,b,b,a], [b,a,a,b], [b,a,b,a], [b,b,a,a]}"
  by (auto simp: insert_commute)

lemma concurrent_create_first_wins:
  assumes inv: "store_inv s"
    and v0: "createLink_validate P u0 cc0 g0 = Inr c"
    and v1: "createLink_validate P u1 cc1 g1 = Inr c"
    and fresh: "findOne s c = None"
    and w: "w = \<lparr>oid = next_oid s, shortCode = c, originalUrl = u0, clicks = 0,
                 lastClicked = None, createdAt = n0\<rparr>"
    and ts: "ts = [CreateLink_start u0 cc0 g0 n0, CreateLink_start u1 cc1 g1 n1]"
  shows "run P [0, 0, 1, 1] (s, ts) =
           (\<lparr>docs = docs s @ [w], next_oid = Suc (next_oid s)\<rparr>,
            [Finished (Inr w), Finished (Inl CODE_EXISTS)])"
    and "run P [0, 1, 0, 1] (s, ts) =
           (\<lparr>docs = docs s @ [w], next_oid = Suc (Suc (next_oid s))\<rparr>,
            [Finished (Inr w), Finished (Inl DuplicateKey)])"
    and "run P [1, 0, 0, 1] (s, ts) =
           (\<lparr>docs = docs s @ [w], next_oid = Suc (Suc (next_oid s))\<rparr>,
            [Finished (Inr w), Finished (Inl DuplicateKey)])"
proof -
  from v0 v1 have ok: "CODE_REGEX_test c" "u0 \<noteq> []" "u1 \<noteq> []"
    by (auto simp: createLink_validate_Inr new_URL_ok_def)
  let ?s1 = "\<lparr>docs = docs s @ [w], next_oid = Suc (next_oid s)\<rparr>"
  have ins: "createLink_insert s c u0 n0 = (Inr w, ?s1)"
    using inv ok fresh w by (simp add: createLink_insert_ok)
  have found: "findOne ?s1 c = Some w"
    using fresh w by (simp add: findOne_after_insert)
  have dup: "createLink_insert ?s1 c u1 n1 = (Inl DuplicateKey, ?s1\<lparr>next_oid := Suc (next_oid ?s1)\<rparr>)"
    using found ok by (simp add: createLink_insert_dup)
  show "run P [0, 0, 1, 1] (s, ts) = (?s1, [Finished (Inr w), Finished (Inl CODE_EXISTS)])"
    using v0 v1 fresh ins found
    by (simp add: ts step_create_start step_create_checked step_create_start_exists step_finished)
  show "run P [0, 1, 0, 1] (s, ts) =
           (\<lparr>docs = docs s @ [w], next_oid = Suc (Suc (next_oid s))\<rparr>,
            [Finished (Inr w), Finished (Inl DuplicateKey)])"
    using v0 v1 fresh ins dup
    by (simp add: ts step_create_start step_create_checked)
  show "run P [1, 0, 0, 1] (s, ts) =
           (\<lparr>docs = docs s @ [w], next_oid = Suc (Suc (next_oid s))\<rparr>,
            [Finished (Inr w), Finished (Inl DuplicateKey)])"
    using v0 v1 fresh ins dup
    by (simp add: ts step_create_start step_create_checked)
qed

lemma concurrent_create_second_wins:
  assumes inv: "store_inv s"
    and v0: "createLink_validate P u0 cc0 g0 = Inr c"
    and v1: "createLink_validate P u1 cc1 g1 = Inr c"
    and fresh: "findOne s c = None"
    and w: "w = \<lparr>oid = next_oid s, shortCode = c, originalUrl = u1, clicks = 0,
                 lastClicked = None, createdAt = n1\<rparr>"
    and ts: "ts = [CreateLink_start u0 cc0 g0 n0, CreateLink_start u1 cc1 g1 n1]"
  shows "run P [1, 1, 0, 0] (s, ts) =
           (\<lparr>docs = docs s @ [w], next_oid = Suc (next_oid s)\<rparr>,
            [Finished (Inl CODE_EXISTS), Finished (Inr w)])"
    and "run P [1, 0, 1, 0] (s, ts) =
           (\<lparr>docs = docs s @ [w], next_oid = Suc (Suc (next_oid s))\<rparr>,
            [Finished (Inl DuplicateKey), Finished (Inr w)])"
    and "run P [0, 1, 1, 0] (s, ts) =
           (\<lparr>docs = docs s @ [w], next_oid = Suc (Suc (next_oid s))\<rparr>,
            [Finished (Inl DuplicateKey), Finished (Inr w)])"
proof -
  from v0 v1 have ok: "CODE_REGEX_test c" "u0 \<noteq> []" "u1 \<noteq> []"
    by (auto simp: createLink_validate_Inr new_URL_ok_def)
  let ?s1 = "\<lparr>docs = docs s @ [w], next_oid = Suc (next_oid s)\<rparr>"
  have ins: "createLink_insert s c u1 n1 = (Inr w, ?s1)"
    using inv ok fresh w by (simp add: createLink_insert_ok)
  have found: "findOne ?s1 c = Some w"
    using fresh w by (simp add: findOne_after_insert)
  have dup: "createLink_insert ?s1 c u0 n0 = (Inl DuplicateKey, ?s1\<lparr>next_oid := Suc (next_oid ?s1)\<rparr>)"
    using found ok by (simp add: createLink_insert_dup)
  show "run P [1, 1, 0, 0] (s, ts) = (?s1, [Finished (Inl CODE_EXISTS), Finished (Inr w)])"
    using v0 v1 fresh ins found
    by (simp add: ts step_create_start step_create_checked step_create_start_exists step_finished)
  show "run P [1, 0, 1, 0] (s, ts) =
           (\<lparr>docs = docs s @ [w], next_oid = Suc (Suc (next_oid s))\<rparr>,
            [Finished (Inl DuplicateKey), Finished (Inr w)])"
    using v0 v1 fresh ins dup
    by (simp add: ts step_create_start step_create_checked)
  show "run P [0, 1, 1, 0] (s, ts) =
           (\<lparr>docs = docs s @ [w], next_oid = Suc (Suc (next_oid s))\<rparr>,
            [Finished (Inl DuplicateKey), Finished (Inr w)])"
    using v0 v1 fresh ins dup
    by (simp add: ts step_create_start step_create_checked)
qed

lemma createLink_validate_custom:
  "new_URL_ok P u \<Longrightarrow> CODE_REGEX_test c \<Longrightarrow> createLink_validate P u (Some c) g = Inr c"
  by (auto simp: createLink_validate_def choose_code_def CODE_REGEX_test_def)

lemma createLink_validate_generated:
  "new_URL_ok P u \<Longrightarrow> CODE_REGEX_test g \<Longrightarrow> createLink_validate P u None g = Inr g"
  by (auto simp: createLink_validate_def choose_code_def)

lemma createLink_validate_empty:
  "new_URL_ok P u \<Longrightarrow> CODE_REGEX_test g \<Longrightarrow> createLink_validate P u (Some []) g = Inr g"
  by (auto simp: createLink_validate_def choose_code_def)

lemma createLink_exists:
  "createLink_validate P u cc g = Inr c \<Longrightarrow> findOne s c = Some d \<Longrightarrow>
   createLink P s u cc g now = (Inl CODE_EXISTS, s)"
  by (simp add: createLink_def)

lemma store_inv_code:
  "store_inv s \<Longrightarrow> findOne s c = Some d \<Longrightarrow> CODE_REGEX_test c \<and> oid d < next_oid s"
  by (auto simp: store_inv_def list_all_iff dest: findOne_Some)

lemma incrementClicks_result:
  assumes "l \<in> set (docs s)"
  shows "fst (incrementClicks s l now)
           = Inr (l\<lparr>clicks := number_add_one (clicks l), lastClicked := Some now\<rparr>)"
proof -
  from assms have "updateOne (\<lambda>d. oid d = oid l)
      (\<lambda>d. d\<lparr>clicks := number_add_one (clicks l), lastClicked := Some now\<rparr>) (docs s) \<noteq> None"
    by (auto simp: updateOne_None)
  then show ?thesis
    by (auto simp: incrementClicks_def save_modified_def Let_def split: option.splits)
qed

lemma findOne_other_after_click:
  assumes "store_inv s" "findOne s c = Some d" "c' \<noteq> c"
  shows "findOne (s\<lparr>docs := map (\<lambda>e. if oid e = oid d then e\<lparr>clicks := k, lastClicked := t\<rparr> else e) (docs s)\<rparr>) c'
     = findOne s c'"
proof (cases "findOne s c'")
  case None
  then show ?thesis by (simp add: findOne_after_click)
next
  case (Some e)
  from assms(1,2) Some have "d \<in> set (docs s)" "e \<in> set (docs s)" "shortCode d = c" "shortCode e = c'"
    "distinct (map oid (docs s))"
    by (auto simp: store_inv_def dest: findOne_Some)
  with assms(3) have "oid e \<noteq> oid d"
    by (metis distinct_map inj_onD)
  with Some show ?thesis by (simp add: findOne_after_click)
qed

subsection \<open>The claims\<close>

text \<open>
  C1 (as amended).  Two calls of \<^verbatim>\<open>createLink\<close> that pass the checks with the same
  short code \<open>c\<close>, not yet in a reachable collection, run concurrently under any
  schedule of their steps: both finish, exactly one returns the new link \<open>w\<close>, the
  other fails with \<open>CODE_EXISTS\<close> (its look-up ran after the winner's insert) or with
  the index's \<open>DuplicateKey\<close> (both look-ups ran before either insert); the collection
  gains the winner's document and nothing else, so one document has the code.
\<close>

theorem concurrent_create_same_code:
  assumes inv: "store_inv s"
    and v0: "createLink_validate P u0 cc0 g0 = Inr c"
    and v1: "createLink_validate P u1 cc1 g1 = Inr c"
    and fresh: "findOne s c = None"
    and sched: "sched \<in> shuffles [0, 0] [1, 1]"
  shows "\<exists>s' r0 r1 w.
           run P sched (s, [CreateLink_start u0 cc0 g0 n0, CreateLink_start u1 cc1 g1 n1])
             = (s', [Finished r0, Finished r1])
           \<and> docs s' = docs s @ [w] \<and> shortCode w = c \<and> count_code s' c = 1
           \<and> (r0 = Inr w \<and> (r1 = Inl CODE_EXISTS \<or> r1 = Inl DuplicateKey)
                \<or> r1 = Inr w \<and> (r0 = Inl CODE_EXISTS \<or> r0 = Inl DuplicateKey))"
proof -
  let ?ts = "[CreateLink_start u0 cc0 g0 n0, CreateLink_start u1 cc1 g1 n1]"
  let ?w0 = "\<lparr>oid = next_oid s, shortCode = c, originalUrl = u0, clicks = 0,
                 lastClicked = None, createdAt = n0\<rparr>"
  let ?w1 = "\<lparr>oid = next_oid s, shortCode = c, originalUrl = u1, clicks = 0,
                 lastClicked = None, createdAt = n1\<rparr>"
  note first = concurrent_create_first_wins [OF inv v0 v1 fresh refl refl, where ?n0.0 = n0 and ?n1.0 = n1]
  note second = concurrent_create_second_wins [OF inv v0 v1 fresh refl refl, where ?n0.0 = n0 and ?n1.0 = n1]
  have cnt: "\<And>w k. shortCode w = c \<Longrightarrow> count_code \<lparr>docs = docs s @ [w], next_oid = k\<rparr> c = 1"
    using fresh by (simp add: count_code_after_insert)
  from sched consider "sched = [0, 0, 1, 1]" | "sched = [0, 1, 0, 1]" | "sched = [1, 0, 0, 1]"
    | "sched = [1, 1, 0, 0]" | "sched = [1, 0, 1, 0]" | "sched = [0, 1, 1, 0]"
    unfolding shuffles_two by blast
  then show ?thesis
  proof cases
    case 1
    with first(1) cnt [of ?w0] show ?thesis by simp
  next
    case 2
    with first(2) cnt [of ?w0] show ?thesis by simp
  next
    case 3
    with first(3) cnt [of ?w0] show ?thesis by simp
  next
    case 4
    with second(1) cnt [of ?w1] show ?thesis by simp
  next
    case 5
    with second(2) cnt [of ?w1] show ?thesis by simp
  next
    case 6
    with second(3) cnt [of ?w1] show ?thesis by simp
  qed
qed

theorem concurrent_create_same_code_witness:
  "store_inv empty_store
   \<and> createLink_validate sample_parser ''https://example.com'' (Some ''abc123'') ''Zz99Zz''
        = Inr ''abc123''
   \<and> createLink_validate sample_parser ''https://example.org'' (Some ''abc123'') ''Yy88Yy''
        = Inr ''abc123''
   \<and> findOne empty_store ''abc123'' = None
   \<and> [0, 1, 0, 1] \<in> shuffles [0, 0] [1, 1 :: nat]
   \<and> (\<exists>s' r0 r1 w.
         run sample_parser [0, 1, 0, 1] (empty_store, [CreateLink_start ''https://example.com'' (Some ''abc123'') ''Zz99Zz'' 1000,
              CreateLink_start ''https://example.org'' (Some ''abc123'') ''Yy88Yy'' 1001])
           = (s', [Finished r0, Finished r1])
         \<and> docs s' = docs empty_store @ [w] \<and> shortCode w = ''abc123''
         \<and> count_code s' ''abc123'' = 1
         \<and> (r0 = Inr w \<and> (r1 = Inl CODE_EXISTS \<or> r1 = Inl DuplicateKey)
              \<or> r1 = Inr w \<and> (r0 = Inl CODE_EXISTS \<or> r0 = Inl DuplicateKey)))"
proof -
  have h1: "store_inv empty_store" by (rule store_inv_empty)
  have h2: "createLink_validate sample_parser ''https://example.com'' (Some ''abc123'') ''Zz99Zz''
        = Inr ''abc123''"
    by (simp add: model_defs)
  have h3: "createLink_validate sample_parser ''https://example.org'' (Some ''abc123'') ''Yy88Yy''
        = Inr ''abc123''"
    by (simp add: model_defs)
  have h4: "findOne empty_store ''abc123'' = None" by (simp add: model_defs)
  have h5: "[0, 1, 0, 1] \<in> shuffles [0, 0] [1, 1 :: nat]" by (simp add: shuffles_two)
  from concurrent_create_same_code [OF h1 h2 h3 h4 h5, where ?n0.0 = 1000 and ?n1.0 = 1001] h1 h2 h3 h4 h5
  show ?thesis by simp
qed

text \<open>
  C1, the claim as stated fails: \<^verbatim>\<open>createLink\<close> is an existence check followed by
  a separate insert.  With the schedule \<open>[0, 1, 0]\<close> on the empty collection the second
  call has passed its check (it is \<open>CreateLink_checked\<close>) while the first call's
  document is already stored under the same code; the second call's insert is then
  refused by the unique index with \<open>DuplicateKey\<close>, not by the check.
\<close>

theorem create_check_then_insert_counterexample:
  "run sample_parser [0, 1, 0] (empty_store, [CreateLink_start ''https://example.com'' (Some ''abc123'') ''Zz99Zz'' 1000,
        CreateLink_start ''https://example.org'' (Some ''abc123'') ''Yy88Yy'' 1001])
     = (store0, [Finished (Inr link0), CreateLink_checked ''abc123'' ''https://example.org'' 1001])
   \<and> findOne store0 ''abc123'' = Some link0
   \<and> task_step sample_parser store0 (CreateLink_checked ''abc123'' ''https://example.org'' 1001)
     = (Finished (Inl DuplicateKey), \<lparr>docs = [link0], next_oid = 2\<rparr>)"
  by (simp add: task_step_def model_defs)

text \<open>
  C2, evaluated on the code.  The collection holds \<open>abc123\<close> with 0 clicks.  Two
  concurrent calls of \<^verbatim>\<open>redirectLink\<close> for \<open>abc123\<close>, scheduled so that both read
  the document before either saves it, both succeed and leave \<open>clicks = 1\<close>, not 2:
  each \<^verbatim>\<open>incrementClicks\<close> adds 1 to the value it read and writes the sum back.
\<close>

theorem concurrent_redirect_lost_update:
  "run sample_parser [0, 1, 0, 1]
     (store0, [RedirectLink_start ''abc123'' 1500, RedirectLink_start ''abc123'' 1600])
   = (\<lparr>docs = [link0\<lparr>clicks := 1, lastClicked := Some 1600\<rparr>], next_oid = 1\<rparr>,
      [Finished (Inr (link0\<lparr>clicks := 1, lastClicked := Some 1500\<rparr>)),
       Finished (Inr (link0\<lparr>clicks := 1, lastClicked := Some 1600\<rparr>))])"
  by (simp add: task_step_def model_defs)

text \<open>
  C3 (as amended).  With no custom code (absent or empty) and a URL that parses, when
  the generated code is well formed and already stored, \<^verbatim>\<open>createLink\<close> does not try
  another code: it fails with \<open>CODE_EXISTS\<close> and leaves the collection as it was,
  exactly as it does when the same code is supplied as a custom code.
\<close>

theorem createLink_generated_collision:
  assumes "new_URL_ok P url" "CODE_REGEX_test gen" "getLinkByCode s gen = Some d"
  shows "createLink P s url None gen now = (Inl CODE_EXISTS, s)
       \<and> createLink P s url (Some []) gen now = (Inl CODE_EXISTS, s)
       \<and> createLink P s url (Some gen) gen' now = (Inl CODE_EXISTS, s)"
proof -
  from assms(1,2) have "createLink_validate P url None gen = Inr gen"
    "createLink_validate P url (Some []) gen = Inr gen"
    "createLink_validate P url (Some gen) gen' = Inr gen"
    by (simp_all add: createLink_validate_custom createLink_validate_generated
        createLink_validate_empty)
  with assms(3) show ?thesis
    by (simp add: getLinkByCode_def createLink_exists)
qed

theorem createLink_generated_collision_witness:
  "new_URL_ok sample_parser ''https://example.org'' \<and> CODE_REGEX_test ''abc123''
   \<and> getLinkByCode store0 ''abc123'' = Some link0
   \<and> createLink sample_parser store0 ''https://example.org'' None ''abc123'' 2000
        = (Inl CODE_EXISTS, store0)
   \<and> createLink sample_parser store0 ''https://example.org'' (Some []) ''abc123'' 2000
        = (Inl CODE_EXISTS, store0)
   \<and> createLink sample_parser store0 ''https://example.org'' (Some ''abc123'') ''Zz99Zz'' 2000
        = (Inl CODE_EXISTS, store0)"
proof -
  have h1: "new_URL_ok sample_parser ''https://example.org''" by (simp add: model_defs)
  have h2: "CODE_REGEX_test ''abc123''" by (simp add: model_defs)
  have h3: "getLinkByCode store0 ''abc123'' = Some link0" by (simp add: model_defs)
  from createLink_generated_collision [OF h1 h2 h3, where now = 2000 and gen' = "''Zz99Zz''"] h1 h2 h3
  show ?thesis by simp
qed

text \<open>
  C3, the claim as stated fails: the collection holds \<open>abc123\<close>, no custom code is
  given and \<^verbatim>\<open>generateCode()\<close> returns \<open>abc123\<close>.  The call fails at once with
  \<open>CODE_EXISTS\<close>, although the code \<open>Zz99Zz\<close> is free.
\<close>

theorem createLink_no_retry_counterexample:
  "createLink sample_parser store0 ''https://example.net'' None ''abc123'' 3000
     = (Inl CODE_EXISTS, store0)
   \<and> getLinkByCode store0 ''Zz99Zz'' = None \<and> CODE_REGEX_test ''Zz99Zz''"
  by (simp add: model_defs)

text \<open>
  C4 (as amended).  \<^verbatim>\<open>redirectLink\<close> (the spec's resolve): when the code is absent
  the answer is \<open>LINK_NOT_FOUND\<close> and the collection is unchanged; when the look-up
  returns \<open>l\<close> and \<open>clicks l\<close> is a non-negative integer below \<open>2 ^ 53\<close>, the answer
  is \<open>l\<close> with \<open>clicks\<close> exactly one higher and \<open>lastClicked\<close> the time of the
  call, and in a reachable collection that is also what is stored under the code
  afterwards, every other code keeping its document.
\<close>

theorem redirectLink_resolves:
  "(getLinkByCode s code = None \<longrightarrow> redirectLink s code now = (Inl LINK_NOT_FOUND, s))
   \<and> (getLinkByCode s code = Some l \<and> 0 \<le> clicks l \<and> clicks l < 2 ^ 53 \<longrightarrow>
        fst (redirectLink s code now) = Inr (l\<lparr>clicks := clicks l + 1, lastClicked := Some now\<rparr>))
   \<and> (store_inv s \<and> getLinkByCode s code = Some l \<and> 0 \<le> clicks l \<and> clicks l < 2 ^ 53 \<longrightarrow>
        getLinkByCode (snd (redirectLink s code now)) code
          = Some (l\<lparr>clicks := clicks l + 1, lastClicked := Some now\<rparr>)
        \<and> (\<forall>c. c \<noteq> code \<longrightarrow>
              getLinkByCode (snd (redirectLink s code now)) c = getLinkByCode s c))"
proof (intro conjI impI allI)
  assume "getLinkByCode s code = None"
  then show "redirectLink s code now = (Inl LINK_NOT_FOUND, s)"
    by (simp add: redirectLink_def)
next
  assume a: "getLinkByCode s code = Some l \<and> 0 \<le> clicks l \<and> clicks l < 2 ^ 53"
  then have "l \<in> set (docs s)" by (auto simp: getLinkByCode_def dest: findOne_Some)
  moreover from a have "number_add_one (clicks l) = clicks l + 1"
    by (simp add: number_add_one_exact)
  ultimately show "fst (redirectLink s code now)
      = Inr (l\<lparr>clicks := clicks l + 1, lastClicked := Some now\<rparr>)"
    using a by (simp add: redirectLink_def incrementClicks_result)
next
  assume a: "store_inv s \<and> getLinkByCode s code = Some l \<and> 0 \<le> clicks l \<and> clicks l < 2 ^ 53"
  then have "number_add_one (clicks l) = clicks l + 1"
    by (simp add: number_add_one_exact)
  with a show "getLinkByCode (snd (redirectLink s code now)) code
          = Some (l\<lparr>clicks := clicks l + 1, lastClicked := Some now\<rparr>)"
    by (simp add: getLinkByCode_def redirectLink_found findOne_after_click)
next
  fix c
  assume a: "store_inv s \<and> getLinkByCode s code = Some l \<and> 0 \<le> clicks l \<and> clicks l < 2 ^ 53"
    and "c \<noteq> code"
  then show "getLinkByCode (snd (redirectLink s code now)) c = getLinkByCode s c"
    using findOne_other_after_click [of s code l c]
    by (simp add: getLinkByCode_def redirectLink_found)
qed

theorem redirectLink_resolves_witness:
  "getLinkByCode store0 ''Zz99Zz'' = None
   \<and> redirectLink store0 ''Zz99Zz'' 1500 = (Inl LINK_NOT_FOUND, store0)
   \<and> store_inv store0 \<and> getLinkByCode store0 ''abc123'' = Some link0
   \<and> 0 \<le> clicks link0 \<and> clicks link0 < 2 ^ 53
   \<and> fst (redirectLink store0 ''abc123'' 1500)
        = Inr (link0\<lparr>clicks := clicks link0 + 1, lastClicked := Some 1500\<rparr>)
   \<and> getLinkByCode (snd (redirectLink store0 ''abc123'' 1500)) ''abc123''
        = Some (link0\<lparr>clicks := clicks link0 + 1, lastClicked := Some 1500\<rparr>)
   \<and> getLinkByCode (snd (redirectLink store0 ''abc123'' 1500)) ''Zz99Zz''
        = getLinkByCode store0 ''Zz99Zz''"
proof -
  have h1: "getLinkByCode store0 ''Zz99Zz'' = None" by (simp add: model_defs)
  have h2: "store_inv store0" by (simp add: model_defs)
  have h3: "getLinkByCode store0 ''abc123'' = Some link0" by (simp add: model_defs)
  have h4: "''Zz99Zz'' \<noteq> ''abc123''" by simp
  have h5: "0 \<le> clicks link0" and h6: "clicks link0 < 2 ^ 53" by (simp_all add: link0_def)
  note absent = redirectLink_resolves
    [where s = store0 and code = "''Zz99Zz''" and now = 1500 and l = link0]
  note found = redirectLink_resolves
    [where s = store0 and code = "''abc123''" and now = 1500 and l = link0]
  note a = absent [THEN conjunct1, THEN mp, OF h1]
  note b = found [THEN conjunct2, THEN conjunct1, THEN mp, OF conjI [OF h3 conjI [OF h5 h6]]]
  note cd = found [THEN conjunct2, THEN conjunct2, THEN mp,
      OF conjI [OF h2 conjI [OF h3 conjI [OF h5 h6]]]]
  note c = cd [THEN conjunct1]
  note e = cd [THEN conjunct2, THEN spec, THEN mp, OF h4]
  show ?thesis
    by (intro conjI) (rule h1 a h2 h3 h5 h6 b c e)+
qed

text \<open>
  C4, the claim as stated fails where Number addition is no longer exact: the stored
  link has \<open>clicks = 2 ^ 53 = 9007199254740992\<close>; \<^verbatim>\<open>link.clicks += 1\<close> leaves that
  value, so \<^verbatim>\<open>redirectLink\<close> returns and stores the link with the same \<open>clicks\<close>, not
  with \<open>9007199254740993\<close>.
\<close>

theorem redirectLink_number_limit_counterexample:
  "redirectLink \<lparr>docs = [link0\<lparr>clicks := 9007199254740992\<rparr>], next_oid = 1\<rparr> ''abc123'' 1500
     = (Inr (link0\<lparr>clicks := 9007199254740992, lastClicked := Some 1500\<rparr>),
        \<lparr>docs = [link0\<lparr>clicks := 9007199254740992, lastClicked := Some 1500\<rparr>], next_oid = 1\<rparr>)
   \<and> (2 :: int) ^ 53 = 9007199254740992"
  by (simp add: model_defs)

text \<open>
  C5 (as amended).  \<^verbatim>\<open>createLink\<close> fails with \<open>INVALID_URL\<close> for every URL that
  does not parse; for a URL that parses it fails with \<open>INVALID_CODE\<close> for every
  non-empty custom code that does not pass the format check, and with \<open>CODE_EXISTS\<close>
  when the custom code is well formed and already stored.  In each of these cases the
  collection is returned unchanged.  Creating twice with the same fresh, well-formed
  custom code in a reachable collection: the first call succeeds, the second fails with
  \<open>CODE_EXISTS\<close>, and exactly one document has the code afterwards.
\<close>

theorem createLink_failures:
  "(\<not> new_URL_ok P url \<longrightarrow> createLink P s url customCode gen now = (Inl INVALID_URL, s))
   \<and> (new_URL_ok P url \<and> c \<noteq> [] \<and> \<not> CODE_REGEX_test c \<longrightarrow>
        createLink P s url (Some c) gen now = (Inl INVALID_CODE, s))
   \<and> (new_URL_ok P url \<and> CODE_REGEX_test c \<and> getLinkByCode s c = Some d \<longrightarrow>
        createLink P s url (Some c) gen now = (Inl CODE_EXISTS, s))
   \<and> (store_inv s \<and> new_URL_ok P url \<and> new_URL_ok P url' \<and> CODE_REGEX_test c
        \<and> getLinkByCode s c = None \<longrightarrow>
        (\<exists>l s1. createLink P s url (Some c) gen now = (Inr l, s1)
           \<and> createLink P s1 url' (Some c) gen' now' = (Inl CODE_EXISTS, s1)
           \<and> count_code s1 c = 1))"
proof (intro conjI impI)
  assume "\<not> new_URL_ok P url"
  then show "createLink P s url customCode gen now = (Inl INVALID_URL, s)"
    by (simp add: createLink_def createLink_validate_def)
next
  assume "new_URL_ok P url \<and> c \<noteq> [] \<and> \<not> CODE_REGEX_test c"
  then show "createLink P s url (Some c) gen now = (Inl INVALID_CODE, s)"
    by (simp add: createLink_def createLink_validate_def choose_code_def)
next
  assume "new_URL_ok P url \<and> CODE_REGEX_test c \<and> getLinkByCode s c = Some d"
  then show "createLink P s url (Some c) gen now = (Inl CODE_EXISTS, s)"
    by (simp add: getLinkByCode_def createLink_exists createLink_validate_custom)
next
  assume a: "store_inv s \<and> new_URL_ok P url \<and> new_URL_ok P url' \<and> CODE_REGEX_test c
        \<and> getLinkByCode s c = None"
  then have v: "createLink_validate P url (Some c) gen = Inr c"
    and v': "createLink_validate P url' (Some c) gen' = Inr c"
    and f: "findOne s c = None" and inv: "store_inv s"
    by (simp_all add: createLink_validate_custom getLinkByCode_def)
  show "\<exists>l s1. createLink P s url (Some c) gen now = (Inr l, s1)
           \<and> createLink P s1 url' (Some c) gen' now' = (Inl CODE_EXISTS, s1)
           \<and> count_code s1 c = 1"
    using createLink_ok [OF inv v f] f v'
    by (simp add: createLink_exists findOne_after_insert count_code_after_insert)
qed

theorem createLink_failures_witness:
  "\<not> new_URL_ok sample_parser ''example.com''
   \<and> createLink sample_parser store0 ''example.com'' (Some ''abc123'') ''Zz99Zz'' 2000
        = (Inl INVALID_URL, store0)
   \<and> new_URL_ok sample_parser ''https://example.org'' \<and> ''abc-12'' \<noteq> []
   \<and> \<not> CODE_REGEX_test ''abc-12''
   \<and> createLink sample_parser store0 ''https://example.org'' (Some ''abc-12'') ''Zz99Zz'' 2000
        = (Inl INVALID_CODE, store0)
   \<and> CODE_REGEX_test ''abc123'' \<and> getLinkByCode store0 ''abc123'' = Some link0
   \<and> createLink sample_parser store0 ''https://example.org'' (Some ''abc123'') ''Zz99Zz'' 2000
        = (Inl CODE_EXISTS, store0)
   \<and> store_inv empty_store \<and> new_URL_ok sample_parser ''https://example.com''
   \<and> getLinkByCode empty_store ''abc123'' = None
   \<and> (\<exists>l s1. createLink sample_parser empty_store ''https://example.com'' (Some ''abc123'')
                 ''Zz99Zz'' 1000 = (Inr l, s1)
          \<and> createLink sample_parser s1 ''https://example.org'' (Some ''abc123'') ''Yy88Yy'' 2000
               = (Inl CODE_EXISTS, s1)
          \<and> count_code s1 ''abc123'' = 1)"
proof -
  have h1: "\<not> new_URL_ok sample_parser ''example.com''" by (simp add: model_defs)
  have h2: "new_URL_ok sample_parser ''https://example.org''" by (simp add: model_defs)
  have h3: "''abc-12'' \<noteq> []" "\<not> CODE_REGEX_test ''abc-12''" by (simp_all add: model_defs)
  have h4: "CODE_REGEX_test ''abc123''" "getLinkByCode store0 ''abc123'' = Some link0"
    by (simp_all add: model_defs)
  have h5: "store_inv empty_store" "new_URL_ok sample_parser ''https://example.com''"
    "getLinkByCode empty_store ''abc123'' = None"
    by (simp_all add: model_defs)
  from h1 createLink_failures [where P = sample_parser and url = "''example.com''" and s = store0
      and customCode = "Some ''abc123''" and gen = "''Zz99Zz''" and now = 2000]
  have a: "createLink sample_parser store0 ''example.com'' (Some ''abc123'') ''Zz99Zz'' 2000
        = (Inl INVALID_URL, store0)"
    by blast
  from h2 h3 createLink_failures [where P = sample_parser and url = "''https://example.org''"
      and s = store0 and gen = "''Zz99Zz''" and now = 2000 and c = "''abc-12''"]
  have b: "createLink sample_parser store0 ''https://example.org'' (Some ''abc-12'') ''Zz99Zz'' 2000
        = (Inl INVALID_CODE, store0)"
    by blast
  from h2 h4 createLink_failures [where P = sample_parser and url = "''https://example.org''"
      and s = store0 and gen = "''Zz99Zz''" and now = 2000 and c = "''abc123''" and d = link0]
  have c: "createLink sample_parser store0 ''https://example.org'' (Some ''abc123'') ''Zz99Zz'' 2000
        = (Inl CODE_EXISTS, store0)"
    by blast
  from h2 h4(1) h5 createLink_failures [where P = sample_parser and url = "''https://example.com''"
      and s = empty_store and gen = "''Zz99Zz''" and now = 1000 and c = "''abc123''"
      and url' = "''https://example.org''" and gen' = "''Yy88Yy''" and now' = 2000]
  have d: "\<exists>l s1. createLink sample_parser empty_store ''https://example.com'' (Some ''abc123'')
                 ''Zz99Zz'' 1000 = (Inr l, s1)
          \<and> createLink sample_parser s1 ''https://example.org'' (Some ''abc123'') ''Yy88Yy'' 2000
               = (Inl CODE_EXISTS, s1)
          \<and> count_code s1 ''abc123'' = 1"
    by blast
  from h1 h2 h3 h4 h5 a b c d show ?thesis by blast
qed

text \<open>
  C5, the claim as stated fails for the empty custom code: it does not pass the format
  check, yet \<^verbatim>\<open>createLink\<close> does not answer \<open>INVALID_CODE\<close>; it stores a link under
  the generated code.
\<close>

theorem createLink_empty_code_counterexample:
  "\<not> CODE_REGEX_test []
   \<and> createLink sample_parser empty_store ''https://example.com'' (Some []) ''abc123'' 1000
       = (Inr link0, store0)"
  by (simp add: model_defs)

text \<open>
  C6, evaluated on the code.  The collection holds \<open>abc123\<close> with 0 clicks and three
  calls of \<^verbatim>\<open>redirectLink\<close> for it are in flight.  The first reads the document; the
  other two then run to the end, leaving \<open>clicks = 2\<close>; the first then saves the value
  it computed from what it had read, and the stored \<open>clicks\<close> falls from 2 to 1.
  (Lemma \<open>links_immutable_clicks_monotone\<close> above is the property for requests that run
  one after another.)
\<close>

theorem concurrent_redirect_clicks_decrease:
  "run sample_parser [0, 1, 1, 2, 2]
     (store0, [RedirectLink_start ''abc123'' 1500, RedirectLink_start ''abc123'' 1600,
               RedirectLink_start ''abc123'' 1700])
   = (\<lparr>docs = [link0\<lparr>clicks := 2, lastClicked := Some 1700\<rparr>], next_oid = 1\<rparr>,
      [RedirectLink_found link0 1500,
       Finished (Inr (link0\<lparr>clicks := 1, lastClicked := Some 1600\<rparr>)),
       Finished (Inr (link0\<lparr>clicks := 2, lastClicked := Some 1700\<rparr>))])
   \<and> run sample_parser [0, 1, 1, 2, 2, 0]
     (store0, [RedirectLink_start ''abc123'' 1500, RedirectLink_start ''abc123'' 1600,
               RedirectLink_start ''abc123'' 1700])
   = (\<lparr>docs = [link0\<lparr>clicks := 1, lastClicked := Some 1500\<rparr>], next_oid = 1\<rparr>,
      [Finished (Inr (link0\<lparr>clicks := 1, lastClicked := Some 1500\<rparr>)),
       Finished (Inr (link0\<lparr>clicks := 1, lastClicked := Some 1600\<rparr>)),
       Finished (Inr (link0\<lparr>clicks := 2, lastClicked := Some 1700\<rparr>))])"
  by (simp add: task_step_def model_defs)

text \<open>
  C7 (as amended).  For a URL that parses and no custom code, when the code that
  \<^verbatim>\<open>generateCode()\<close> returns is well formed and not yet in a reachable collection,
  \<^verbatim>\<open>createLink\<close> succeeds: the link it returns and stores has that code, 6 to 8
  alphanumeric characters, \<open>clicks = 0\<close> and no \<open>lastClicked\<close>.
\<close>

theorem createLink_generated_code:
  assumes "store_inv s" "new_URL_ok P url" "CODE_REGEX_test gen" "getLinkByCode s gen = None"
  shows "\<exists>l s'. createLink P s url None gen now = (Inr l, s')
           \<and> shortCode l = gen \<and> originalUrl l = url
           \<and> 6 \<le> length (shortCode l) \<and> length (shortCode l) \<le> 8
           \<and> list_all is_alnum (shortCode l)
           \<and> clicks l = 0 \<and> lastClicked l = None
           \<and> getLinkByCode s' gen = Some l"
proof -
  from assms have v: "createLink_validate P url None gen = Inr gen"
    and f: "findOne s gen = None"
    by (simp_all add: createLink_validate_generated getLinkByCode_def)
  show ?thesis
    using createLink_ok [OF assms(1) v f] f assms(3)
    by (simp add: getLinkByCode_def findOne_after_insert CODE_REGEX_test_def)
qed

theorem createLink_generated_code_witness:
  "store_inv store0 \<and> new_URL_ok sample_parser ''https://example.org''
   \<and> CODE_REGEX_test ''Zz99Zz'' \<and> getLinkByCode store0 ''Zz99Zz'' = None
   \<and> (\<exists>l s'. createLink sample_parser store0 ''https://example.org'' None ''Zz99Zz'' 2000
                 = (Inr l, s')
          \<and> shortCode l = ''Zz99Zz'' \<and> originalUrl l = ''https://example.org''
          \<and> 6 \<le> length (shortCode l) \<and> length (shortCode l) \<le> 8
          \<and> list_all is_alnum (shortCode l)
          \<and> clicks l = 0 \<and> lastClicked l = None
          \<and> getLinkByCode s' ''Zz99Zz'' = Some l)"
proof -
  have h1: "store_inv store0" by (simp add: model_defs)
  have h2: "new_URL_ok sample_parser ''https://example.org''" by (simp add: model_defs)
  have h3: "CODE_REGEX_test ''Zz99Zz''" by (simp add: model_defs)
  have h4: "getLinkByCode store0 ''Zz99Zz'' = None" by (simp add: model_defs)
  from createLink_generated_code [OF h1 h2 h3 h4, where now = 2000] h1 h2 h3 h4
  show ?thesis by blast
qed

text \<open>
  C7, the claim as stated fails: the URL parses and no custom code is given, but
  \<^verbatim>\<open>generateCode()\<close> returns a code that is already stored, and \<^verbatim>\<open>createLink\<close>
  fails with \<open>CODE_EXISTS\<close>.
\<close>

theorem createLink_generated_code_counterexample:
  "new_URL_ok sample_parser ''https://example.org''
   \<and> createLink sample_parser store0 ''https://example.org'' None ''abc123'' 2000
       = (Inl CODE_EXISTS, store0)"
  by (simp add: model_defs)



text \<open>
  C9.  For a code stored in a reachable collection: \<^verbatim>\<open>deleteLink(code)\<close> returns the
  document; \<^verbatim>\<open>redirectLink(code)\<close> then answers \<open>LINK_NOT_FOUND\<close>; and a following
  \<^verbatim>\<open>createLink(url, code)\<close> with a URL that parses succeeds with a new document (another
  ObjectId, \<open>clicks = 0\<close>, no \<open>lastClicked\<close>) that is then stored under the code.
\<close>

theorem delete_frees_code:
  assumes "store_inv s" "getLinkByCode s code = Some d" "new_URL_ok P url"
  shows "\<exists>s1 l s2. deleteLink s code = (Inr d, s1)
           \<and> redirectLink s1 code now = (Inl LINK_NOT_FOUND, s1)
           \<and> createLink P s1 url (Some code) gen now' = (Inr l, s2)
           \<and> shortCode l = code \<and> originalUrl l = url \<and> clicks l = 0 \<and> lastClicked l = None
           \<and> oid l \<noteq> oid d \<and> getLinkByCode s2 code = Some l"
proof -
  let ?s1 = "s\<lparr>docs := filter (\<lambda>e. shortCode e \<noteq> code) (docs s)\<rparr>"
  from assms have f: "findOne s code = Some d" by (simp add: getLinkByCode_def)
  with assms(1) have del: "deleteLink s code = (Inr d, ?s1)" by (rule deleteLink_found)
  have inv1: "store_inv ?s1" using assms(1) by (rule store_inv_filter)
  have f1: "findOne ?s1 code = None" by (rule findOne_after_delete)
  from assms(1) f have c: "CODE_REGEX_test code" and lt: "oid d < next_oid s"
    by (simp_all add: store_inv_code)
  from assms(3) c have v: "createLink_validate P url (Some code) gen = Inr code"
    by (rule createLink_validate_custom)
  have "find (\<lambda>e. shortCode e = code) (filter (\<lambda>e. shortCode e \<noteq> code) (docs s)) = None"
    by (simp add: find_None_iff)
  then show ?thesis
    using del f1 lt createLink_ok [OF inv1 v f1]
    by (simp add: redirectLink_absent getLinkByCode_def findOne_append)
qed

theorem delete_frees_code_witness:
  "store_inv store0 \<and> getLinkByCode store0 ''abc123'' = Some link0
   \<and> new_URL_ok sample_parser ''https://example.org''
   \<and> (\<exists>s1 l s2. deleteLink store0 ''abc123'' = (Inr link0, s1)
          \<and> redirectLink s1 ''abc123'' 1500 = (Inl LINK_NOT_FOUND, s1)
          \<and> createLink sample_parser s1 ''https://example.org'' (Some ''abc123'') ''Zz99Zz'' 2000
               = (Inr l, s2)
          \<and> shortCode l = ''abc123'' \<and> originalUrl l = ''https://example.org''
          \<and> clicks l = 0 \<and> lastClicked l = None
          \<and> oid l \<noteq> oid link0 \<and> getLinkByCode s2 ''abc123'' = Some l)"
proof -
  have h1: "store_inv store0" by (simp add: model_defs)
  have h2: "getLinkByCode store0 ''abc123'' = Some link0" by (simp add: model_defs)
  have h3: "new_URL_ok sample_parser ''https://example.org''" by (simp add: model_defs)
  from delete_frees_code [OF h1 h2 h3, where now = 1500 and gen = "''Zz99Zz''" and now' = 2000] h1 h2 h3
  show ?thesis by blast
qed

text \<open>
  C10.  A custom code that is the empty string is treated exactly like an absent custom
  code: \<^verbatim>\<open>createLink\<close> generates a code.  The empty string does not pass the
  format check, yet for a URL that parses and a well-formed generated code the result
  is not \<open>INVALID_CODE\<close>; and when that generated code is not yet in a reachable
  collection the call succeeds, returning and storing a new link whose \<open>shortCode\<close> is
  the generated code.
\<close>

theorem createLink_empty_custom_code:
  "createLink P s url (Some []) gen now = createLink P s url None gen now
   \<and> \<not> CODE_REGEX_test []
   \<and> (new_URL_ok P url \<and> CODE_REGEX_test gen \<longrightarrow>
        fst (createLink P s url (Some []) gen now) \<noteq> Inl INVALID_CODE)
   \<and> (store_inv s \<and> new_URL_ok P url \<and> CODE_REGEX_test gen \<and> getLinkByCode s gen = None \<longrightarrow>
        (\<exists>l s'. createLink P s url (Some []) gen now = (Inr l, s')
           \<and> shortCode l = gen \<and> originalUrl l = url \<and> clicks l = 0 \<and> lastClicked l = None
           \<and> docs s' = docs s @ [l] \<and> getLinkByCode s' gen = Some l))"
proof (intro conjI impI)
  show "createLink P s url (Some []) gen now = createLink P s url None gen now"
    by (simp add: createLink_def createLink_validate_def choose_code_def)
next
  show "\<not> CODE_REGEX_test []" by (simp add: CODE_REGEX_test_def)
next
  assume "new_URL_ok P url \<and> CODE_REGEX_test gen"
  then show "fst (createLink P s url (Some []) gen now) \<noteq> Inl INVALID_CODE"
    by (simp add: createLink_def createLink_validate_def choose_code_def CODE_REGEX_test_def
        createLink_insert_def new_Link_def save_new_def Let_def split: option.splits sum.splits)
next
  assume a: "store_inv s \<and> new_URL_ok P url \<and> CODE_REGEX_test gen \<and> getLinkByCode s gen = None"
  then have inv: "store_inv s" and v: "createLink_validate P url (Some []) gen = Inr gen"
    and f: "findOne s gen = None"
    by (simp_all add: createLink_validate_empty getLinkByCode_def)
  show "\<exists>l s'. createLink P s url (Some []) gen now = (Inr l, s')
           \<and> shortCode l = gen \<and> originalUrl l = url \<and> clicks l = 0 \<and> lastClicked l = None
           \<and> docs s' = docs s @ [l] \<and> getLinkByCode s' gen = Some l"
    using createLink_ok [OF inv v f] f
    by (simp add: getLinkByCode_def findOne_after_insert)
qed

theorem createLink_empty_custom_code_witness:
  "store_inv empty_store \<and> new_URL_ok sample_parser ''https://example.com''
   \<and> CODE_REGEX_test ''abc123'' \<and> getLinkByCode empty_store ''abc123'' = None
   \<and> createLink sample_parser empty_store ''https://example.com'' (Some []) ''abc123'' 1000
        = createLink sample_parser empty_store ''https://example.com'' None ''abc123'' 1000
   \<and> fst (createLink sample_parser empty_store ''https://example.com'' (Some []) ''abc123'' 1000)
        \<noteq> Inl INVALID_CODE
   \<and> (\<exists>l s'. createLink sample_parser empty_store ''https://example.com'' (Some []) ''abc123''
                 1000 = (Inr l, s')
          \<and> shortCode l = ''abc123'' \<and> originalUrl l = ''https://example.com''
          \<and> clicks l = 0 \<and> lastClicked l = None
          \<and> docs s' = docs empty_store @ [l] \<and> getLinkByCode s' ''abc123'' = Some l)"
proof -
  have h0: "store_inv empty_store" by (simp add: model_defs)
  have h1: "new_URL_ok sample_parser ''https://example.com''" by (simp add: model_defs)
  have h2: "CODE_REGEX_test ''abc123''" by (simp add: model_defs)
  have h3: "getLinkByCode empty_store ''abc123'' = None" by (simp add: model_defs)
  note inst = createLink_empty_custom_code [where P = sample_parser and s = empty_store
      and url = "''https://example.com''" and gen = "''abc123''" and now = 1000]
  note a = inst [THEN conjunct1]
  note b = inst [THEN conjunct2, THEN conjunct2, THEN conjunct1, THEN mp, OF conjI [OF h1 h2]]
  note c = inst [THEN conjunct2, THEN conjunct2, THEN conjunct2, THEN mp,
      OF conjI [OF h0 conjI [OF h1 conjI [OF h2 h3]]]]
  show ?thesis
    by (intro conjI) (rule h0 h1 h2 h3 a b c)+
qed

end
